theory Spec2Isabelle
  imports Complex_Main "HOL-Library.Word" "HOL-Library.Sublist"
begin

section \<open>Data model\<close>

text \<open>
  A JavaScript string is a sequence of UTF-16 code units; \<open>text.length\<close> counts code
  units, and a regular expression without the \<open>u\<close> flag matches code unit by code unit.
\<close>

type_synonym jsstring = "16 word list"

text \<open>
  Modelled from the spec: the type declarations \<open>OpenAIMessage\<close> and \<open>OpenAIModel\<close>
  are imported from \<open>../types\<close>. A message is
  \<open>{ role: one of {system, user, assistant}, content: text }\<close>; a model identifier is a
  string.
\<close>

datatype role = System | User | Assistant

record OpenAIMessage =
  role :: role
  content :: jsstring

type_synonym OpenAIModel = string

section \<open>estimateTokens\<close>

text \<open>The character class of the regular expression: the code units from 0x4e00 to 0x9fff.\<close>

definition isChinese :: "16 word \<Rightarrow> bool" where
  "isChinese c \<longleftrightarrow> 0x4e00 \<le> c \<and> c \<le> 0x9fff"

text \<open>
  \<open>text.match\<close> with that class and the global flag returns the array of all matches
  (here one-character strings, left to right), or \<open>null\<close> when there is none.
\<close>

definition matchChinese :: "jsstring \<Rightarrow> jsstring list option" where
  "matchChinese text =
     (case filter isChinese text of
        [] \<Rightarrow> None
      | c # cs \<Rightarrow> Some (map (\<lambda>d. [d]) (c # cs)))"

text \<open>
  JavaScript numbers are modelled by exact rationals. The result of the source coincides
  with the exact one for every string a JavaScript engine can hold: \<open>otherChars / 4\<close> is
  exact in binary floating point, \<open>chineseChars / 1.5\<close> is exact when \<open>chineseChars\<close> is a
  multiple of three, and otherwise the exact sum is at least \<open>1/12\<close> away from every
  integer (lemma \<open>estimate_margin\<close> below), far more than the rounding error of two
  double operations on values below \<open>2^53\<close>.
\<close>

definition estimateTokens :: "jsstring \<Rightarrow> int" where
  "estimateTokens text =
     (let chineseChars = int (length (case matchChinese text of None \<Rightarrow> [] | Some ms \<Rightarrow> ms));
          otherChars = int (length text) - chineseChars
      in \<lceil>(of_int chineseChars / (3 / 2) + of_int otherChars / 4 :: rat)\<rceil>)"

section \<open>checkTokenLimit\<close>

text \<open>
  What reading a property of the object literal \<open>tokenLimits\<close> can give: a number for one
  of its own seven keys, a function or object for a key inherited from
  \<open>Object.prototype\<close>, and \<open>undefined\<close> for any other key.
\<close>

datatype jsvalue = Number int | Object | Undefined

definition tokenLimits :: "(string \<times> int) list" where
  "tokenLimits =
     [(''gpt-3.5-turbo'', 4096),
      (''gpt-3.5-turbo-16k'', 16384),
      (''gpt-4'', 8192),
      (''gpt-4-32k'', 32768),
      (''gpt-4-turbo-preview'', 128000),
      (''gpt-4o'', 128000),
      (''gpt-4o-mini'', 128000)]"

definition objectPrototypeKeys :: "string list" where
  "objectPrototypeKeys =
     [''constructor'', ''hasOwnProperty'', ''isPrototypeOf'', ''propertyIsEnumerable'',
      ''toLocaleString'', ''toString'', ''valueOf'', ''__proto__'',
      ''__defineGetter__'', ''__defineSetter__'', ''__lookupGetter__'', ''__lookupSetter__'']"

text \<open>\<open>tokenLimits[model]\<close>: own properties first, then the prototype chain.\<close>

definition getLimit :: "OpenAIModel \<Rightarrow> jsvalue" where
  "getLimit model =
     (case map_of tokenLimits model of
        Some n \<Rightarrow> Number n
      | None \<Rightarrow> if model \<in> set objectPrototypeKeys then Object else Undefined)"

text \<open>Truthiness, as \<open>||\<close> tests it.\<close>

fun truthy :: "jsvalue \<Rightarrow> bool" where
  "truthy (Number n) = (n \<noteq> 0)"
| "truthy Object = True"
| "truthy Undefined = False"

text \<open>
  \<open>v * 0.8\<close>; \<open>None\<close> is \<open>NaN\<close>. The product of a number is modelled exactly: for
  the ceilings 4096, 8192, 16384 and 32768 the double product lies strictly between the
  same two integers as the exact one, and for 128000 it is the integer 102400, so the
  comparison with an integer estimate has the same result.
\<close>

fun times08 :: "jsvalue \<Rightarrow> rat option" where
  "times08 (Number n) = Some (of_int n * (8 / 10))"
| "times08 Object = None"
| "times08 Undefined = None"

text \<open>\<open>a < b\<close> for a number \<open>a\<close>; a comparison with \<open>NaN\<close> is false.\<close>

fun numLess :: "int \<Rightarrow> rat option \<Rightarrow> bool" where
  "numLess a (Some b) = (of_int a < b)"
| "numLess a None = False"

definition checkTokenLimit :: "OpenAIMessage list \<Rightarrow> OpenAIModel \<Rightarrow> bool" where
  "checkTokenLimit messages model =
     (let totalText = concat (map content messages);
          estimatedTokens = estimateTokens totalText;
          limit = (if truthy (getLimit model) then getLimit model else Number 4096)
      in numLess estimatedTokens (times08 limit))"

section \<open>optimizeMessages\<close>

text \<open>
  The inner \<open>for\<close> loop, entered at index \<open>i\<close>: it removes the first message at an index
  \<open>j\<close> with \<open>i \<le> j < length - 1\<close> whose role is not \<open>system\<close> and stops; when there is
  none, it leaves the array as it is.
\<close>

function forLoop :: "OpenAIMessage list \<Rightarrow> nat \<Rightarrow> OpenAIMessage list" where
  "forLoop ms i =
     (if int i < int (length ms) - 1 then
        (if role (ms ! i) \<noteq> System then take i ms @ drop (Suc i) ms
         else forLoop ms (Suc i))
      else ms)"
  by pat_completeness auto
termination
  by (relation "measure (\<lambda>(ms, i). length ms - i)") auto

declare forLoop.simps [simp del]

text \<open>
  The \<open>while\<close> loop on the working copy. \<open>None\<close> stands for a run that never returns. The
  two constants \<open>systemMessage\<close> and \<open>lastUserMessage\<close> of the body are computed and
  never used.
\<close>

partial_function (option) whileLoop :: "OpenAIMessage list \<Rightarrow> OpenAIModel \<Rightarrow> OpenAIMessage list option" where
  "whileLoop ms model =
     (if \<not> checkTokenLimit ms model \<and> length ms > 1 then
        (let ms' = forLoop ms 1
         in if length ms' \<le> 2 then Some ms' else whileLoop ms' model)
      else Some ms)"

declare whileLoop.simps [code]

definition optimizeMessages :: "OpenAIMessage list \<Rightarrow> OpenAIModel \<Rightarrow> OpenAIMessage list option" where
  "optimizeMessages messages model = whileLoop messages model"

section \<open>Notions of the specification\<close>

text \<open>
  The two character counts of the token estimator, in the specification's words: the
  characters in the common-CJK range, and the remaining characters.
\<close>

definition cjk_count :: "jsstring \<Rightarrow> nat" where
  "cjk_count s = length (filter isChinese s)"

definition other_count :: "jsstring \<Rightarrow> nat" where
  "other_count s = length (filter (\<lambda>c. \<not> isChinese c) s)"

text \<open>
  The limit check in the specification's words: the ceiling from the static table, 4096
  for an identifier that is not in the table, and the estimate strictly below 80% of it.
\<close>

definition specCeiling :: "OpenAIModel \<Rightarrow> int" where
  "specCeiling model = (case map_of tokenLimits model of Some n \<Rightarrow> n | None \<Rightarrow> 4096)"

definition specFitsWithinLimit :: "OpenAIMessage list \<Rightarrow> OpenAIModel \<Rightarrow> bool" where
  "specFitsWithinLimit messages model \<longleftrightarrow>
     (of_int (estimateTokens (concat (map content messages))) :: rat)
       < (80 / 100) * of_int (specCeiling model)"

text \<open>The messages with role \<open>system\<close>, in their order.\<close>

definition systemMessages :: "OpenAIMessage list \<Rightarrow> OpenAIMessage list" where
  "systemMessages ms = filter (\<lambda>m. role m = System) ms"

text \<open>The messages strictly between the first and the last one.\<close>

definition interior :: "OpenAIMessage list \<Rightarrow> OpenAIMessage list" where
  "interior ms = butlast (tl ms)"

text \<open>
  A state of the \<open>while\<close> loop that an iteration leaves as it is: over the limit, more
  than two messages, and nothing for the \<open>for\<close> loop to remove.
\<close>

definition isStuck :: "OpenAIMessage list \<Rightarrow> OpenAIModel \<Rightarrow> bool" where
  "isStuck ms model \<longleftrightarrow> \<not> checkTokenLimit ms model \<and> 2 < length ms \<and> forLoop ms 1 = ms"

text \<open>A text of 13108 letters \<open>a\<close>, estimated at 3277 tokens.\<close>

definition longText :: jsstring where
  "longText = replicate 13108 0x61"

section \<open>The token estimator\<close>

lemma length_matchChinese:
  "length (case matchChinese s of None \<Rightarrow> [] | Some ms \<Rightarrow> ms) = cjk_count s"
  by (simp add: matchChinese_def cjk_count_def split: list.splits)

lemma cjk_plus_other: "cjk_count s + other_count s = length s"
  unfolding cjk_count_def other_count_def by (rule sum_length_filter_compl)

lemma otherChars_eq: "int (length s) - int (cjk_count s) = int (other_count s)"
  using cjk_plus_other [of s] by simp

lemma estimateTokens_counts:
  "estimateTokens s = \<lceil>(of_nat (cjk_count s) / (3 / 2) + of_nat (other_count s) / 4 :: rat)\<rceil>"
  unfolding estimateTokens_def Let_def length_matchChinese otherChars_eq of_int_of_nat_eq ..

lemma neg_div_twelve: "- (- x div 12) = (x + 11) div (12::int)"
proof -
  define q where "q = (x + 11) div 12"
  define r where "r = (x + 11) mod 12"
  have x: "x + 11 = 12 * q + r" and r: "0 \<le> r" "r < 12"
    by (simp_all add: q_def r_def)
  have "- x = 12 * (- q) + (11 - r)"
    using x by simp
  then have "- x div 12 = - q + (11 - r) div 12"
    by (simp only: div_mult_self4)
  also have "(11 - r) div 12 = 0"
    using r by (simp add: div_pos_pos_trivial)
  finally show ?thesis
    by (simp add: q_def)
qed

lemma ceiling_twelfths:
  "\<lceil>(of_nat c / (3 / 2) + of_nat d / 4 :: rat)\<rceil> = (8 * int c + 3 * int d + 11) div 12"
proof -
  have "(of_nat c / (3 / 2) + of_nat d / 4 :: rat) = of_int (8 * int c + 3 * int d) / of_int 12"
    by (simp add: field_simps)
  then have "\<lceil>(of_nat c / (3 / 2) + of_nat d / 4 :: rat)\<rceil> = - (- (8 * int c + 3 * int d) div 12)"
    by (simp only: ceiling_divide_eq_div)
  then show ?thesis
    by (simp only: neg_div_twelve)
qed

text \<open>The estimate in integer arithmetic: twelfths of a token, rounded up.\<close>

lemma estimateTokens_div:
  "estimateTokens s = (8 * int (cjk_count s) + 3 * int (other_count s) + 11) div 12"
  by (simp only: estimateTokens_counts ceiling_twelfths)

lemma cjk_count_replicate: "cjk_count (replicate n c) = (if isChinese c then n else 0)"
  by (simp add: cjk_count_def)

lemma other_count_replicate: "other_count (replicate n c) = (if isChinese c then 0 else n)"
  by (simp add: other_count_def)

lemma cjk_count_append: "cjk_count (s @ t) = cjk_count s + cjk_count t"
  by (simp add: cjk_count_def)

lemma other_count_append: "other_count (s @ t) = other_count s + other_count t"
  by (simp add: other_count_def)

lemma cjk_count_Nil: "cjk_count [] = 0"
  by (simp add: cjk_count_def)

lemma other_count_Nil: "other_count [] = 0"
  by (simp add: other_count_def)

lemma cjk_count_Cons: "cjk_count (c # s) = (if isChinese c then Suc (cjk_count s) else cjk_count s)"
  by (simp add: cjk_count_def)

lemma other_count_Cons:
  "other_count (c # s) = (if isChinese c then other_count s else Suc (other_count s))"
  by (simp add: other_count_def)

lemmas count_simps =
  cjk_count_replicate other_count_replicate cjk_count_append other_count_append
  cjk_count_Nil other_count_Nil cjk_count_Cons other_count_Cons

lemma estimateTokens_mono_counts:
  assumes "cjk_count s \<le> cjk_count t" and "other_count s \<le> other_count t"
  shows "estimateTokens s \<le> estimateTokens t"
proof -
  have "8 * int (cjk_count s) + 3 * int (other_count s) + 11
      \<le> 8 * int (cjk_count t) + 3 * int (other_count t) + 11"
    using assms by simp
  then show ?thesis
    unfolding estimateTokens_div by (rule zdiv_mono1) simp
qed

text \<open>
  Why exact arithmetic is a sound model of the doubles: when the number of CJK characters
  is not a multiple of three, an error below \<open>1/12\<close> does not change the rounded result.
\<close>

lemma estimate_margin:
  fixes e :: rat
  assumes c: "\<not> 3 dvd c" and e: "\<bar>e\<bar> < 1 / 12"
  shows "\<lceil>of_nat c / (3 / 2) + of_nat d / 4 + e\<rceil> = \<lceil>(of_nat c / (3 / 2) + of_nat d / 4 :: rat)\<rceil>"
proof -
  define a where "a = 8 * int c + 3 * int d"
  define q where "q = a div 12"
  define r where "r = a mod 12"
  have a: "a = 12 * q + r" and r: "0 \<le> r" "r < 12"
    by (simp_all add: q_def r_def)
  have "r \<noteq> 0"
  proof
    assume "r = 0"
    then have "a = 3 * (4 * q)" using a by simp
    then have "(3::int) dvd a" by (rule dvdI)
    moreover have "(3::int) dvd 3 * int d" by simp
    ultimately have "(3::int) dvd a - 3 * int d" by (rule dvd_diff)
    then have "(3::int) dvd 8 * int c" by (simp add: a_def)
    moreover have "(3::int) dvd 3 * (3 * int c)" by simp
    ultimately have "(3::int) dvd 3 * (3 * int c) - 8 * int c" by (rule dvd_diff [rotated])
    then have "int 3 dvd int c" by simp
    then have "3 dvd c" by (simp only: of_nat_dvd_iff)
    with c show False ..
  qed
  with r have r1: "1 \<le> r" "r \<le> 11" by simp_all
  have x: "(of_nat c / (3 / 2) + of_nat d / 4 :: rat) = of_int q + of_int r / 12"
  proof -
    have "(of_nat c / (3 / 2) + of_nat d / 4 :: rat) = of_int a / 12"
      by (simp add: a_def field_simps)
    also have "\<dots> = of_int q + of_int r / 12"
      by (simp add: a field_simps)
    finally show ?thesis .
  qed
  have lo: "(1::rat) / 12 \<le> of_int r / 12" and hi: "(of_int r :: rat) / 12 \<le> 11 / 12"
    using r1 by simp_all
  have e': "- (1 / 12) < e" "e < 1 / 12"
    using e by (simp_all add: abs_less_iff)
  have "\<lceil>of_int q + of_int r / 12 + e\<rceil> = q + 1"
  proof (rule ceiling_unique)
    show "of_int (q + 1) - 1 < of_int q + of_int r / 12 + e"
      using lo e' by simp
    show "of_int q + of_int r / 12 + e \<le> of_int (q + 1)"
      using hi e' by simp
  qed
  moreover have "\<lceil>(of_int q + of_int r / 12 :: rat)\<rceil> = q + 1"
  proof (rule ceiling_unique)
    show "of_int (q + 1) - 1 < (of_int q + of_int r / 12 :: rat)"
      using lo by simp
    show "(of_int q + of_int r / 12 :: rat) \<le> of_int (q + 1)"
      using hi by simp
  qed
  ultimately show ?thesis
    by (simp only: x)
qed

text \<open>
  C8. For every string, \<open>estimateTokens\<close> is the sum of the number of CJK characters
  divided by 1.5 and the number of remaining characters divided by 4, rounded up; the
  estimate of the empty string is 0. The function is total: no string makes it fail.
\<close>

theorem estimateTokens_formula:
  "estimateTokens s = \<lceil>(of_nat (cjk_count s) / (15 / 10) + of_nat (other_count s) / 4 :: rat)\<rceil>
   \<and> estimateTokens [] = 0"
proof
  show "estimateTokens s = \<lceil>(of_nat (cjk_count s) / (15 / 10) + of_nat (other_count s) / 4 :: rat)\<rceil>"
    by (simp add: estimateTokens_counts)
  show "estimateTokens [] = 0"
    by (simp add: estimateTokens_div count_simps)
qed

text \<open>
  C9. The estimate never decreases when a string is extended, and more generally when
  neither the number of CJK characters nor the number of other characters decreases; this
  covers two strings of the same script composition of which one is the longer.
\<close>

theorem estimateTokens_monotone:
  "estimateTokens s \<le> estimateTokens (s @ t)
   \<and> (cjk_count s \<le> cjk_count u \<and> other_count s \<le> other_count u
        \<longrightarrow> estimateTokens s \<le> estimateTokens u)"
proof
  show "estimateTokens s \<le> estimateTokens (s @ t)"
    by (rule estimateTokens_mono_counts) (simp_all add: count_simps)
  show "cjk_count s \<le> cjk_count u \<and> other_count s \<le> other_count u
        \<longrightarrow> estimateTokens s \<le> estimateTokens u"
    by (simp add: estimateTokens_mono_counts)
qed

theorem estimateTokens_monotone_witness:
  "estimateTokens [0x4e2d, 0x61] \<le> estimateTokens ([0x4e2d, 0x61] @ [0x6587, 0x62])
   \<and> cjk_count [0x4e2d, 0x61] \<le> cjk_count [0x4e2d, 0x6587, 0x61, 0x62]
   \<and> other_count [0x4e2d, 0x61] \<le> other_count [0x4e2d, 0x6587, 0x61, 0x62]
   \<and> estimateTokens [0x4e2d, 0x61] \<le> estimateTokens [0x4e2d, 0x6587, 0x61, 0x62]"
  using estimateTokens_monotone [of "[0x4e2d, 0x61]" "[0x6587, 0x62]" "[0x4e2d, 0x6587, 0x61, 0x62]"]
  by (simp add: count_simps isChinese_def)

section \<open>The inner loop\<close>

lemma forLoop_none:
  "(\<And>k. i \<le> k \<Longrightarrow> k + 1 < length ms \<Longrightarrow> role (ms ! k) = System) \<Longrightarrow> forLoop ms i = ms"
proof (induction ms i rule: forLoop.induct)
  case (1 ms i)
  show ?case
  proof (cases "int i < int (length ms) - 1")
    case True
    then have "i + 1 < length ms" by simp
    then have sys: "role (ms ! i) = System" using "1.prems" by simp
    have "forLoop ms (Suc i) = ms"
      using True sys "1.prems" by (intro "1.IH") simp_all
    then show ?thesis
      using True sys by (subst forLoop.simps) simp
  next
    case False
    then show ?thesis by (subst forLoop.simps) simp
  qed
qed

lemma forLoop_first:
  "i \<le> j \<Longrightarrow> j + 1 < length ms \<Longrightarrow> role (ms ! j) \<noteq> System \<Longrightarrow>
   (\<And>k. i \<le> k \<Longrightarrow> k < j \<Longrightarrow> role (ms ! k) = System) \<Longrightarrow>
   forLoop ms i = take j ms @ drop (Suc j) ms"
proof (induction ms i rule: forLoop.induct)
  case (1 ms i)
  have inb: "int i < int (length ms) - 1"
    using "1.prems"(1,2) by simp
  show ?case
  proof (cases "i = j")
    case True
    then show ?thesis
      using inb "1.prems"(3) by (subst forLoop.simps) simp
  next
    case False
    then have lt: "i < j" using "1.prems"(1) by simp
    then have sys: "role (ms ! i) = System" using "1.prems"(4) by simp
    have "forLoop ms (Suc i) = take j ms @ drop (Suc j) ms"
      using inb sys lt "1.prems" by (intro "1.IH") simp_all
    then show ?thesis
      using inb sys by (subst forLoop.simps) simp
  qed
qed

lemma forLoop_cases:
  "forLoop ms i = ms \<or>
   (\<exists>j. i \<le> j \<and> j + 1 < length ms \<and> role (ms ! j) \<noteq> System \<and> forLoop ms i = take j ms @ drop (Suc j) ms)"
proof (induction ms i rule: forLoop.induct)
  case (1 ms i)
  show ?case
  proof (cases "int i < int (length ms) - 1")
    case inb: True
    show ?thesis
    proof (cases "role (ms ! i) = System")
      case True
      then have eq: "forLoop ms i = forLoop ms (Suc i)"
        using inb by (subst forLoop.simps) simp
      from "1.IH" [OF inb] True
      have "forLoop ms (Suc i) = ms \<or>
        (\<exists>j. Suc i \<le> j \<and> j + 1 < length ms \<and> role (ms ! j) \<noteq> System \<and>
             forLoop ms (Suc i) = take j ms @ drop (Suc j) ms)"
        by simp
      then show ?thesis
        unfolding eq using Suc_leD by blast
    next
      case False
      then have "forLoop ms i = take i ms @ drop (Suc i) ms"
        using inb by (subst forLoop.simps) simp
      moreover have "i + 1 < length ms" using inb by simp
      ultimately show ?thesis using False by blast
    qed
  next
    case False
    then have "forLoop ms i = ms" by (subst forLoop.simps) simp
    then show ?thesis ..
  qed
qed

text \<open>Removing one element that is neither the first nor the last.\<close>

lemma remove_subseq:
  assumes "j < length xs"
  shows "subseq (take j xs @ drop (Suc j) xs) xs"
proof -
  have "subseq (drop (Suc j) xs) (xs ! j # drop (Suc j) xs)"
    by (rule subseq_Cons') simp
  then have "subseq (take j xs @ drop (Suc j) xs) (take j xs @ xs ! j # drop (Suc j) xs)"
    by (intro list_emb_append_mono) simp_all
  then show ?thesis
    by (simp only: id_take_nth_drop [OF assms, symmetric])
qed

lemma remove_systemMessages:
  assumes j: "j < length ms" and r: "role (ms ! j) \<noteq> System"
  shows "systemMessages (take j ms @ drop (Suc j) ms) = systemMessages ms"
proof -
  have "systemMessages (take j ms @ ms ! j # drop (Suc j) ms)
      = systemMessages (take j ms @ drop (Suc j) ms)"
    using r by (simp add: systemMessages_def)
  then show ?thesis
    by (simp only: id_take_nth_drop [OF j, symmetric])
qed

lemma remove_last:
  "j + 1 < length xs \<Longrightarrow> last (take j xs @ drop (Suc j) xs) = last xs"
  by (simp add: last_drop)

lemma remove_hd:
  "1 \<le> j \<Longrightarrow> j < length xs \<Longrightarrow> hd (take j xs @ drop (Suc j) xs) = hd xs"
  by (cases xs; cases j) simp_all

lemma forLoop_elim:
  obtains (same) "forLoop ms i = ms"
  | (removed) j where "i \<le> j" and "j + 1 < length ms" and "role (ms ! j) \<noteq> System"
      and "forLoop ms i = take j ms @ drop (Suc j) ms"
  using forLoop_cases [of ms i] by blast

lemma forLoop_subseq: "subseq (forLoop ms i) ms"
proof (cases rule: forLoop_elim [of ms i])
  case same
  then show ?thesis by simp
next
  case (removed j)
  then have "j < length ms" by simp
  then have "subseq (take j ms @ drop (Suc j) ms) ms" by (rule remove_subseq)
  then show ?thesis by (simp only: removed(4))
qed

lemma forLoop_systemMessages: "systemMessages (forLoop ms i) = systemMessages ms"
proof (cases rule: forLoop_elim [of ms i])
  case same
  then show ?thesis by simp
next
  case (removed j)
  then have "j < length ms" by simp
  then have "systemMessages (take j ms @ drop (Suc j) ms) = systemMessages ms"
    using removed(3) by (rule remove_systemMessages)
  then show ?thesis by (simp only: removed(4))
qed

lemma forLoop_length: "length (forLoop ms i) \<le> length ms"
proof (cases rule: forLoop_elim [of ms i])
  case same
  then show ?thesis by simp
next
  case (removed j)
  have "length (take j ms @ drop (Suc j) ms) \<le> length ms" by simp
  then show ?thesis by (simp only: removed(4))
qed

lemma forLoop_last: "last (forLoop ms i) = last ms"
proof (cases rule: forLoop_elim [of ms i])
  case same
  then show ?thesis by simp
next
  case (removed j)
  from removed(2) have "last (take j ms @ drop (Suc j) ms) = last ms" by (rule remove_last)
  then show ?thesis by (simp only: removed(4))
qed

lemma forLoop_hd: "1 \<le> i \<Longrightarrow> hd (forLoop ms i) = hd ms"
proof (cases rule: forLoop_elim [of ms i])
  case same
  then show ?thesis by simp
next
  case (removed j)
  assume "1 \<le> i"
  with removed have "1 \<le> j" "j < length ms" by simp_all
  then have "hd (take j ms @ drop (Suc j) ms) = hd ms" by (rule remove_hd)
  then show ?thesis by (simp only: removed(4))
qed

lemma forLoop_length_ge2: "1 \<le> i \<Longrightarrow> 2 \<le> length ms \<Longrightarrow> 2 \<le> length (forLoop ms i)"
proof (cases rule: forLoop_elim [of ms i])
  case same
  assume "2 \<le> length ms"
  then show ?thesis by (simp only: same)
next
  case (removed j)
  assume "1 \<le> i"
  with removed have "2 \<le> length (take j ms @ drop (Suc j) ms)" by simp
  then show ?thesis by (simp only: removed(4))
qed

section \<open>The outer loop\<close>

text \<open>Facts that evaluate the limit check on a concrete conversation.\<close>

lemmas check_eval =
  checkTokenLimit_def getLimit_def tokenLimits_def objectPrototypeKeys_def
  estimateTokens_div count_simps isChinese_def longText_def

lemma whileLoop_done:
  "checkTokenLimit ms model \<or> length ms \<le> 1 \<Longrightarrow> whileLoop ms model = Some ms"
  by (subst whileLoop.simps) auto

lemma whileLoop_iterate:
  "\<not> checkTokenLimit ms model \<Longrightarrow> 1 < length ms \<Longrightarrow>
   whileLoop ms model =
     (if length (forLoop ms 1) \<le> 2 then Some (forLoop ms 1) else whileLoop (forLoop ms 1) model)"
  by (subst whileLoop.simps) (simp add: Let_def)

lemma forLoop_two: "length ms \<le> 2 \<Longrightarrow> forLoop ms 1 = ms"
  by (subst forLoop.simps) simp

lemma forLoop_second: "role b \<noteq> System \<Longrightarrow> forLoop (a # b # c # rest) 1 = a # c # rest"
  by (subst forLoop.simps) simp

lemma whileLoop_stuck: "isStuck ms model \<Longrightarrow> whileLoop ms model = None"
proof -
  have "\<not> isStuck ms model" if ret: "whileLoop ms model = Some r" for r
  proof (rule whileLoop.raw_induct [where P = "\<lambda>ms model r. \<not> isStuck ms model", OF _ ret])
    fix f ms model r
    assume IH: "\<And>ms model r. f ms model = Some r \<Longrightarrow> \<not> isStuck ms model"
      and body: "(if \<not> checkTokenLimit ms model \<and> 1 < length ms
                  then let ms' = forLoop ms 1
                       in if length ms' \<le> 2 then Some ms' else f ms' model
                  else Some ms) = Some r"
    show "\<not> isStuck ms model"
    proof
      assume stuck: "isStuck ms model"
      then have "f ms model = Some r"
        using body by (simp add: isStuck_def)
      then have "\<not> isStuck ms model" by (rule IH)
      then show False using stuck ..
    qed
  qed
  then show "isStuck ms model \<Longrightarrow> whileLoop ms model = None"
    by (cases "whileLoop ms model") auto
qed

lemma whileLoop_rel:
  assumes ret: "whileLoop ms model = Some r"
    and refl: "\<And>x. R x x"
    and step: "\<And>x y. R (forLoop x 1) y \<Longrightarrow> R x y"
  shows "R ms r"
proof (rule whileLoop.raw_induct [where P = "\<lambda>ms model r. R ms r", OF _ ret])
  fix f ms model r
  assume IH: "\<And>ms model r. f ms model = Some r \<Longrightarrow> R ms r"
    and body: "(if \<not> checkTokenLimit ms model \<and> 1 < length ms
                then let ms' = forLoop ms 1
                     in if length ms' \<le> 2 then Some ms' else f ms' model
                else Some ms) = Some r"
  show "R ms r"
  proof (cases "\<not> checkTokenLimit ms model \<and> 1 < length ms")
    case False
    then have "r = ms" using body by (simp split: if_splits)
    then show ?thesis by (simp add: refl)
  next
    case True
    show ?thesis
    proof (cases "length (forLoop ms 1) \<le> 2")
      case le: True
      then have "r = forLoop ms 1" using True body by (simp add: Let_def)
      then show ?thesis by (simp add: step refl)
    next
      case False
      then have "f (forLoop ms 1) model = Some r"
        using True body by (simp add: Let_def)
      then have "R (forLoop ms 1) r" by (rule IH)
      then show ?thesis by (rule step)
    qed
  qed
qed

text \<open>What a returned sequence is like.\<close>

lemma whileLoop_subseq: "whileLoop ms model = Some r \<Longrightarrow> subseq r ms"
proof (erule whileLoop_rel [where R = "\<lambda>x y. subseq y x"])
  show "subseq x x" for x :: "OpenAIMessage list" by simp
  show "subseq y x" if "subseq y (forLoop x 1)" for x y
    using that forLoop_subseq [of x 1] by (rule subseq_order.order_trans)
qed

lemma whileLoop_systemMessages:
  "whileLoop ms model = Some r \<Longrightarrow> systemMessages r = systemMessages ms"
  by (erule whileLoop_rel [where R = "\<lambda>x y. systemMessages y = systemMessages x"])
    (simp_all add: forLoop_systemMessages)

lemma whileLoop_length: "whileLoop ms model = Some r \<Longrightarrow> length r \<le> length ms"
proof (erule whileLoop_rel [where R = "\<lambda>x y. length y \<le> length x"])
  show "length x \<le> length x" for x :: "OpenAIMessage list" by simp
  show "length y \<le> length x" if "length y \<le> length (forLoop x 1)" for x y
    using that forLoop_length [of x 1] by (rule order_trans)
qed

lemma whileLoop_last: "whileLoop ms model = Some r \<Longrightarrow> last r = last ms"
  by (erule whileLoop_rel [where R = "\<lambda>x y. last y = last x"]) (simp_all add: forLoop_last)

lemma whileLoop_hd: "whileLoop ms model = Some r \<Longrightarrow> hd r = hd ms"
  by (erule whileLoop_rel [where R = "\<lambda>x y. hd y = hd x"]) (simp_all add: forLoop_hd)

lemma whileLoop_length_ge2:
  "whileLoop ms model = Some r \<Longrightarrow> 2 \<le> length ms \<Longrightarrow> 2 \<le> length r"
proof -
  assume ret: "whileLoop ms model = Some r" and len: "2 \<le> length ms"
  have "2 \<le> length ms \<longrightarrow> 2 \<le> length r"
  proof (rule whileLoop_rel [OF ret, where R = "\<lambda>x y. 2 \<le> length x \<longrightarrow> 2 \<le> length y"])
    show "2 \<le> length x \<longrightarrow> 2 \<le> length x" for x :: "OpenAIMessage list" by simp
    show "2 \<le> length x \<longrightarrow> 2 \<le> length y"
      if "2 \<le> length (forLoop x 1) \<longrightarrow> 2 \<le> length y" for x y
      using that forLoop_length_ge2 [of 1 x] by simp
  qed
  with len show ?thesis by simp
qed

text \<open>The loop returns when no message strictly between the first and the last is a system message.\<close>

lemma whileLoop_terminates:
  assumes "\<forall>m \<in> set (interior ms). role m \<noteq> System"
  shows "\<exists>r. whileLoop ms model = Some r"
  using assms
proof (induction "length ms" arbitrary: ms rule: less_induct)
  case less
  show ?case
  proof (cases "\<not> checkTokenLimit ms model \<and> 1 < length ms")
    case False
    then have "whileLoop ms model = Some ms" by (intro whileLoop_done) auto
    then show ?thesis ..
  next
    case over: True
    show ?thesis
    proof (cases "length (forLoop ms 1) \<le> 2")
      case True
      then have "whileLoop ms model = Some (forLoop ms 1)"
        using over by (simp add: whileLoop_iterate)
      then show ?thesis ..
    next
      case False
      then have "2 < length ms"
        using forLoop_length [of ms 1] by simp
      then obtain a b c rest where ms: "ms = a # b # c # rest"
        by (cases ms; cases "tl ms"; cases "tl (tl ms)") auto
      have b: "role b \<noteq> System"
        using less.prems by (simp add: ms interior_def)
      have step: "forLoop ms 1 = a # c # rest"
        unfolding ms using b by (rule forLoop_second)
      have "\<forall>m \<in> set (interior (a # c # rest)). role m \<noteq> System"
        using less.prems by (simp add: ms interior_def)
      moreover have "length (a # c # rest) < length ms"
        by (simp add: ms)
      ultimately have "\<exists>r. whileLoop (a # c # rest) model = Some r"
        by (intro less.hyps)
      moreover have "whileLoop ms model = whileLoop (forLoop ms 1) model"
        using over False by (simp add: whileLoop_iterate)
      ultimately show ?thesis by (simp only: step)
    qed
  qed
qed

lemma whileLoop_fixed: "whileLoop ms model = Some r \<Longrightarrow> whileLoop r model = Some r"
proof -
  assume ret: "whileLoop ms model = Some r"
  show ?thesis
  proof (rule whileLoop.raw_induct [where P = "\<lambda>ms model r. whileLoop r model = Some r", OF _ ret])
    fix f ms model r
    assume IH: "\<And>ms model r. f ms model = Some r \<Longrightarrow> whileLoop r model = Some r"
      and body: "(if \<not> checkTokenLimit ms model \<and> 1 < length ms
                  then let ms' = forLoop ms 1
                       in if length ms' \<le> 2 then Some ms' else f ms' model
                  else Some ms) = Some r"
    show "whileLoop r model = Some r"
    proof (cases "\<not> checkTokenLimit ms model \<and> 1 < length ms")
      case False
      then have "r = ms" using body by (simp split: if_splits)
      with False show ?thesis by (auto intro: whileLoop_done)
    next
      case over: True
      show ?thesis
      proof (cases "length (forLoop ms 1) \<le> 2")
        case le: True
        then have r: "r = forLoop ms 1" using over body by (simp add: Let_def)
        show ?thesis
        proof (cases "checkTokenLimit r model \<or> length r \<le> 1")
          case True
          then show ?thesis by (rule whileLoop_done)
        next
          case False
          then have over': "\<not> checkTokenLimit r model" "1 < length r" by simp_all
          have len: "length r \<le> 2" using le r by simp
          then have fl: "forLoop r 1 = r" by (rule forLoop_two)
          have "whileLoop r model =
              (if length (forLoop r 1) \<le> 2 then Some (forLoop r 1) else whileLoop (forLoop r 1) model)"
            using over' by (rule whileLoop_iterate)
          also have "\<dots> = (if length r \<le> 2 then Some r else whileLoop r model)"
            by (simp only: fl)
          also have "\<dots> = Some r"
            using len by (rule if_P)
          finally show ?thesis .
        qed
      next
        case False
        then have "f (forLoop ms 1) model = Some r"
          using over body by (simp add: Let_def)
        then show ?thesis by (rule IH)
      qed
    qed
  qed
qed

section \<open>The limit check\<close>

lemma tokenLimits_nonzero: "map_of tokenLimits model = Some n \<Longrightarrow> n \<noteq> 0"
  by (auto simp: tokenLimits_def split: if_splits)

text \<open>
  For every identifier that is not the name of a property inherited from
  \<open>Object.prototype\<close>, the check is the one the specification describes.
\<close>

lemma checkTokenLimit_spec:
  assumes "model \<notin> set objectPrototypeKeys"
  shows "checkTokenLimit ms model = specFitsWithinLimit ms model"
proof (cases "map_of tokenLimits model")
  case None
  then show ?thesis
    using assms
    by (simp add: checkTokenLimit_def getLimit_def specFitsWithinLimit_def specCeiling_def)
next
  case (Some n)
  then have "n \<noteq> 0" by (rule tokenLimits_nonzero)
  then show ?thesis
    using Some
    by (simp add: checkTokenLimit_def getLimit_def specFitsWithinLimit_def specCeiling_def
        mult.commute)
qed

text \<open>
  C5. The identifier \<open>constructor\<close> is not in the table, and the empty conversation is
  estimated at 0 tokens, below 80% of 4096; the check answers false all the same, because
  the lookup finds the inherited property, which is truthy and not a number.
\<close>

theorem checkTokenLimit_inherited_key:
  "map_of tokenLimits ''constructor'' = None
   \<and> specFitsWithinLimit [] ''constructor''
   \<and> \<not> checkTokenLimit [] ''constructor''"
  by (simp add: specFitsWithinLimit_def specCeiling_def check_eval)

section \<open>The trimmer\<close>

text \<open>
  C4. A conversation that passes the limit check is returned as it is.
\<close>

theorem optimizeMessages_unchanged:
  "checkTokenLimit ms model \<Longrightarrow> optimizeMessages ms model = Some ms"
  unfolding optimizeMessages_def by (rule whileLoop_done) simp

theorem optimizeMessages_unchanged_witness:
  "checkTokenLimit
     [\<lparr>role = System, content = [0x53]\<rparr>, \<lparr>role = User, content = [0x4f60, 0x597d]\<rparr>] ''gpt-4''
   \<and> optimizeMessages
     [\<lparr>role = System, content = [0x53]\<rparr>, \<lparr>role = User, content = [0x4f60, 0x597d]\<rparr>] ''gpt-4''
     = Some [\<lparr>role = System, content = [0x53]\<rparr>, \<lparr>role = User, content = [0x4f60, 0x597d]\<rparr>]"
proof -
  have h: "checkTokenLimit
     [\<lparr>role = System, content = [0x53]\<rparr>, \<lparr>role = User, content = [0x4f60, 0x597d]\<rparr>] ''gpt-4''"
    by (simp add: check_eval)
  show ?thesis
    using h optimizeMessages_unchanged [OF h] by simp
qed

text \<open>
  C2 (as amended). An iteration runs the inner loop from index 1. When some message at an
  index from 1 to length - 2 is not a system message, the iteration removes the first such
  message and no other; when there is none, it removes nothing. The first and the last
  message are never candidates.
\<close>

theorem forLoop_removes_first_candidate:
  "(1 \<le> j \<and> j + 1 < length ms \<and> role (ms ! j) \<noteq> System
      \<and> (\<forall>k. 1 \<le> k \<and> k < j \<longrightarrow> role (ms ! k) = System)
      \<longrightarrow> forLoop ms 1 = take j ms @ drop (Suc j) ms)
   \<and> ((\<forall>k. 1 \<le> k \<and> k + 1 < length ms \<longrightarrow> role (ms ! k) = System)
      \<longrightarrow> forLoop ms 1 = ms)"
proof (intro conjI impI)
  assume "1 \<le> j \<and> j + 1 < length ms \<and> role (ms ! j) \<noteq> System
      \<and> (\<forall>k. 1 \<le> k \<and> k < j \<longrightarrow> role (ms ! k) = System)"
  then show "forLoop ms 1 = take j ms @ drop (Suc j) ms"
    by (intro forLoop_first) simp_all
next
  assume "\<forall>k. 1 \<le> k \<and> k + 1 < length ms \<longrightarrow> role (ms ! k) = System"
  then show "forLoop ms 1 = ms"
    by (intro forLoop_none) simp
qed

theorem forLoop_removes_first_candidate_witness:
  "forLoop
     [\<lparr>role = System, content = [0x53]\<rparr>, \<lparr>role = System, content = [0x54]\<rparr>,
      \<lparr>role = User, content = [0x55]\<rparr>, \<lparr>role = Assistant, content = [0x41]\<rparr>,
      \<lparr>role = User, content = [0x56]\<rparr>] 1
   = [\<lparr>role = System, content = [0x53]\<rparr>, \<lparr>role = System, content = [0x54]\<rparr>,
      \<lparr>role = Assistant, content = [0x41]\<rparr>, \<lparr>role = User, content = [0x56]\<rparr>]
   \<and> forLoop
     [\<lparr>role = System, content = [0x53]\<rparr>, \<lparr>role = System, content = [0x54]\<rparr>,
      \<lparr>role = User, content = [0x56]\<rparr>] 1
   = [\<lparr>role = System, content = [0x53]\<rparr>, \<lparr>role = System, content = [0x54]\<rparr>,
      \<lparr>role = User, content = [0x56]\<rparr>]"
proof -
  have k1: "k = 1" if "1 \<le> k \<and> k < 2" for k :: nat
    using that by simp
  have k2: "k = 1" if "1 \<le> k \<and> k + 1 < 3" for k :: nat
    using that by simp
  show ?thesis
    using
      forLoop_removes_first_candidate [of 2
        "[\<lparr>role = System, content = [0x53]\<rparr>, \<lparr>role = System, content = [0x54]\<rparr>,
          \<lparr>role = User, content = [0x55]\<rparr>, \<lparr>role = Assistant, content = [0x41]\<rparr>,
          \<lparr>role = User, content = [0x56]\<rparr>]"]
      forLoop_removes_first_candidate [of 0
        "[\<lparr>role = System, content = [0x53]\<rparr>, \<lparr>role = System, content = [0x54]\<rparr>,
          \<lparr>role = User, content = [0x56]\<rparr>]"]
    by (auto dest: k1 k2)
qed

text \<open>
  C2 as first stated fails on a conversation of a system message and a long user message:
  the loop iterates, the message at index 1 is not a system message, and the iteration
  removes nothing, because index 1 is the last index.
\<close>

theorem forLoop_keeps_last_counterexample:
  "\<not> checkTokenLimit
       [\<lparr>role = System, content = [0x53]\<rparr>, \<lparr>role = User, content = longText\<rparr>] ''gpt-3.5-turbo''
   \<and> 1 < length [\<lparr>role = System, content = [0x53]\<rparr>, \<lparr>role = User, content = longText\<rparr>]
   \<and> role ([\<lparr>role = System, content = [0x53]\<rparr>, \<lparr>role = User, content = longText\<rparr>] ! 1) \<noteq> System
   \<and> forLoop [\<lparr>role = System, content = [0x53]\<rparr>, \<lparr>role = User, content = longText\<rparr>] 1
       = [\<lparr>role = System, content = [0x53]\<rparr>, \<lparr>role = User, content = longText\<rparr>]"
  by (simp add: check_eval forLoop.simps)

section \<open>Conversations on which the trimmer does not return\<close>

text \<open>
  The inner loop skips system messages and never looks at the last message. When the
  conversation is over the limit, has more than two messages, and every message strictly
  between the first and the last is a system message, an iteration removes nothing and the
  outer loop repeats it without end.
\<close>

text \<open>
  C3. A conversation of three messages on which \<open>optimizeMessages\<close> does not terminate.
\<close>

theorem optimizeMessages_diverges:
  "optimizeMessages
     [\<lparr>role = User, content = longText\<rparr>,
      \<lparr>role = System, content = [0x53]\<rparr>,
      \<lparr>role = User, content = [0x55]\<rparr>] ''gpt-3.5-turbo'' = None"
  unfolding optimizeMessages_def
  by (rule whileLoop_stuck) (simp add: isStuck_def check_eval forLoop.simps)

text \<open>
  C1. A conversation over the limit for which no sequence is returned: a user message, a
  system message, and a long user message.
\<close>

theorem optimizeMessages_over_limit_no_result:
  "\<not> checkTokenLimit
       [\<lparr>role = User, content = [0x55]\<rparr>,
        \<lparr>role = System, content = [0x53]\<rparr>,
        \<lparr>role = User, content = longText\<rparr>] ''gpt-3.5-turbo''
   \<and> optimizeMessages
       [\<lparr>role = User, content = [0x55]\<rparr>,
        \<lparr>role = System, content = [0x53]\<rparr>,
        \<lparr>role = User, content = longText\<rparr>] ''gpt-3.5-turbo'' = None"
proof
  show "\<not> checkTokenLimit
       [\<lparr>role = User, content = [0x55]\<rparr>,
        \<lparr>role = System, content = [0x53]\<rparr>,
        \<lparr>role = User, content = longText\<rparr>] ''gpt-3.5-turbo''"
    by (simp add: check_eval)
  show "optimizeMessages
       [\<lparr>role = User, content = [0x55]\<rparr>,
        \<lparr>role = System, content = [0x53]\<rparr>,
        \<lparr>role = User, content = longText\<rparr>] ''gpt-3.5-turbo'' = None"
    unfolding optimizeMessages_def
    by (rule whileLoop_stuck) (simp add: isStuck_def check_eval forLoop.simps)
qed

text \<open>
  C7. A conversation of four messages: the first iteration removes the assistant message
  at index 1, and the loop then repeats on the remaining three messages without returning.
\<close>

theorem optimizeMessages_no_result_after_removal:
  "2 \<le> length
       [\<lparr>role = User, content = [0x55]\<rparr>,
        \<lparr>role = Assistant, content = [0x41]\<rparr>,
        \<lparr>role = System, content = [0x53]\<rparr>,
        \<lparr>role = User, content = longText\<rparr>]
   \<and> optimizeMessages
       [\<lparr>role = User, content = [0x55]\<rparr>,
        \<lparr>role = Assistant, content = [0x41]\<rparr>,
        \<lparr>role = System, content = [0x53]\<rparr>,
        \<lparr>role = User, content = longText\<rparr>] ''gpt-3.5-turbo'' = None"
proof
  show "2 \<le> length
       [\<lparr>role = User, content = [0x55]\<rparr>,
        \<lparr>role = Assistant, content = [0x41]\<rparr>,
        \<lparr>role = System, content = [0x53]\<rparr>,
        \<lparr>role = User, content = longText\<rparr>]"
    by simp
  have "whileLoop
       [\<lparr>role = User, content = [0x55]\<rparr>,
        \<lparr>role = Assistant, content = [0x41]\<rparr>,
        \<lparr>role = System, content = [0x53]\<rparr>,
        \<lparr>role = User, content = longText\<rparr>] ''gpt-3.5-turbo''
    = whileLoop
       [\<lparr>role = User, content = [0x55]\<rparr>,
        \<lparr>role = System, content = [0x53]\<rparr>,
        \<lparr>role = User, content = longText\<rparr>] ''gpt-3.5-turbo''"
    by (subst whileLoop.simps) (simp add: check_eval forLoop.simps)
  also have "\<dots> = None"
    by (rule whileLoop_stuck) (simp add: isStuck_def check_eval forLoop.simps)
  finally show "optimizeMessages
       [\<lparr>role = User, content = [0x55]\<rparr>,
        \<lparr>role = Assistant, content = [0x41]\<rparr>,
        \<lparr>role = System, content = [0x53]\<rparr>,
        \<lparr>role = User, content = longText\<rparr>] ''gpt-3.5-turbo'' = None"
    unfolding optimizeMessages_def .
qed

text \<open>
  C10. A conversation for which there is no output to compare with the input; the model
  identifier is not in the table, so the ceiling is 4096.
\<close>

theorem optimizeMessages_no_output:
  "optimizeMessages
     [\<lparr>role = User, content = [0x55]\<rparr>,
      \<lparr>role = System, content = [0x53]\<rparr>,
      \<lparr>role = Assistant, content = longText\<rparr>] ''text-davinci-003'' = None"
  unfolding optimizeMessages_def
  by (rule whileLoop_stuck) (simp add: isStuck_def check_eval forLoop.simps)

text \<open>
  C6. A conversation on which the first call does not return, so that the composition of
  two calls returns nothing that could be compared with the result of one call.
\<close>

theorem optimizeMessages_twice_no_result:
  "optimizeMessages
     [\<lparr>role = Assistant, content = [0x41]\<rparr>,
      \<lparr>role = System, content = [0x53]\<rparr>,
      \<lparr>role = User, content = longText\<rparr>] ''gpt-3.5-turbo'' = None
   \<and> Option.bind
       (optimizeMessages
          [\<lparr>role = Assistant, content = [0x41]\<rparr>,
           \<lparr>role = System, content = [0x53]\<rparr>,
           \<lparr>role = User, content = longText\<rparr>] ''gpt-3.5-turbo'')
       (\<lambda>r. optimizeMessages r ''gpt-3.5-turbo'') = None"
proof -
  have "optimizeMessages
     [\<lparr>role = Assistant, content = [0x41]\<rparr>,
      \<lparr>role = System, content = [0x53]\<rparr>,
      \<lparr>role = User, content = longText\<rparr>] ''gpt-3.5-turbo'' = None"
    unfolding optimizeMessages_def
    by (rule whileLoop_stuck) (simp add: isStuck_def check_eval forLoop.simps)
  then show ?thesis by simp
qed

section \<open>Conversations on which the trimmer returns\<close>

text \<open>
  When no message strictly between the first and the last is a system message (for
  instance when the only system message is the first one), \<open>optimizeMessages\<close> returns, and the
  sequence it returns is a subsequence of the input with the same system messages, the
  same first and last message, and at least two messages when the input has two.
\<close>

lemma optimizeMessages_returns:
  assumes "\<forall>m \<in> set (interior ms). role m \<noteq> System"
  shows "\<exists>r. optimizeMessages ms model = Some r
           \<and> subseq r ms \<and> systemMessages r = systemMessages ms
           \<and> length r \<le> length ms \<and> hd r = hd ms \<and> last r = last ms
           \<and> (2 \<le> length ms \<longrightarrow> 2 \<le> length r)"
proof -
  from assms obtain r where r: "whileLoop ms model = Some r"
    using whileLoop_terminates by blast
  then have "subseq r ms" "systemMessages r = systemMessages ms" "length r \<le> length ms"
    "hd r = hd ms" "last r = last ms" "2 \<le> length ms \<longrightarrow> 2 \<le> length r"
    by (simp_all add: whileLoop_subseq whileLoop_systemMessages whileLoop_length
        whileLoop_hd whileLoop_last whileLoop_length_ge2)
  with r show ?thesis
    by (simp add: optimizeMessages_def)
qed

text \<open>Whatever the roles, a sequence that is returned has these properties.\<close>

lemma optimizeMessages_result:
  assumes "optimizeMessages ms model = Some r"
  shows "subseq r ms \<and> systemMessages r = systemMessages ms
           \<and> length r \<le> length ms \<and> hd r = hd ms \<and> last r = last ms
           \<and> (2 \<le> length ms \<longrightarrow> 2 \<le> length r)"
  using assms unfolding optimizeMessages_def
  by (simp add: whileLoop_subseq whileLoop_systemMessages whileLoop_length
        whileLoop_hd whileLoop_last whileLoop_length_ge2)

text \<open>A conversation of at most one message is returned as it is.\<close>

lemma optimizeMessages_short: "length ms \<le> 1 \<Longrightarrow> optimizeMessages ms model = Some ms"
  unfolding optimizeMessages_def by (rule whileLoop_done) simp

text \<open>
  A sequence that is returned is returned again by a second call: it passes the limit
  check, or it has at most two messages and the loop stops after one iteration.
\<close>

lemma optimizeMessages_fixed:
  "optimizeMessages c m = Some r \<Longrightarrow> optimizeMessages r m = Some r"
  unfolding optimizeMessages_def by (rule whileLoop_fixed)

text \<open>
  So two calls give what one call gives on every conversation on which the trimmer
  returns, in particular when no message strictly between the first and the last is a
  system message.
\<close>

lemma optimizeMessages_twice:
  assumes "\<forall>x \<in> set (interior c). role x \<noteq> System"
  shows "\<exists>r. optimizeMessages c m = Some r \<and> optimizeMessages r m = Some r"
proof -
  from assms obtain r where r: "optimizeMessages c m = Some r"
    using optimizeMessages_returns by blast
  then have "optimizeMessages r m = Some r" by (rule optimizeMessages_fixed)
  with r show ?thesis by simp
qed

end
